theory Spec2Isabelle
  imports Main "HOL-Library.Sublist" "HOL-Library.Char_ord" "HOL-Library.List_Lexorder"
begin

section \<open>Data model\<close>

text \<open>
  The \<^verbatim>\<open>Article\<close> interface of both components
  (\<^verbatim>\<open>src/components/ArticlesList.tsx\<close>, lines 8-13, and
  \<^verbatim>\<open>src/components/HomePageContent.tsx\<close>, lines 16-21). The optional
  \<^verbatim>\<open>description?: string\<close> is an option; \<^verbatim>\<open>topics: string[]\<close> is a list, so
  order and repetitions are kept as the array has them. A string is the list of its
  characters: a character of the ASCII range is one \<open>char\<close>, and a character
  beyond it is the bytes of its UTF-8 encoding.
\<close>

record article =
  slug :: string
  title :: string
  description :: "string option"
  topics :: "string list"

section \<open>JavaScript library functions used by the components\<close>

text \<open>
  \<^verbatim>\<open>String.prototype.includes\<close>: \<open>includes_str s q\<close> holds when \<open>q\<close> occurs in
  \<open>s\<close> as a contiguous run of characters.
\<close>

fun includes_str :: "string \<Rightarrow> string \<Rightarrow> bool" where
  "includes_str [] q = (q = [])"
| "includes_str (c # cs) q = (prefix q (c # cs) \<or> includes_str cs q)"

text \<open>
  \<^verbatim>\<open>String.prototype.toLowerCase\<close> is a function of the JavaScript platform, with
  the case mappings of the whole Unicode character database, some of which depend on
  the neighbouring characters or change the length of a string. The functions of the
  components that call it take it as a parameter \<open>lower\<close>, and what is proved of
  them is proved for every such function.

  For the evaluation of examples, \<open>toLowerCase\<close> below gives the values of
  \<^verbatim>\<open>String.prototype.toLowerCase\<close> on the strings that consist of ASCII letters,
  digits and spaces and of the Greek letters U+0391 to U+03A9 and U+03B1 to U+03C9
  (two bytes each in UTF-8: CE 91 to CE A9, CE B1 to CE BF and CF 80 to CF 89). There
  an ASCII capital becomes its small letter, a Greek capital other than sigma becomes
  its small letter, and the capital sigma (CE A3) becomes the final small sigma
  (CF 82) when a letter stands before it and no letter stands after it, and the small
  sigma (CF 83) otherwise; everything else is unchanged. \<open>ascii_lower\<close> maps
  the ASCII capitals to their small letters and \<open>greek_lower\<close> the Greek capitals
  other than sigma; \<open>letter_next\<close> says that a string begins with a letter, and
  \<open>prev\<close> that the character before is a letter.
\<close>

definition ascii_lower :: "char \<Rightarrow> char" where
  "ascii_lower c =
     (case map_of (zip ''ABCDEFGHIJKLMNOPQRSTUVWXYZ'' ''abcdefghijklmnopqrstuvwxyz'') c of
        Some l \<Rightarrow> l
      | None \<Rightarrow> c)"

definition ascii_letter :: "char \<Rightarrow> bool" where
  "ascii_letter c =
     (c \<in> set ''ABCDEFGHIJKLMNOPQRSTUVWXYZ'' \<or> c \<in> set ''abcdefghijklmnopqrstuvwxyz'')"

definition greek_lower :: "char \<Rightarrow> char \<Rightarrow> string option" where
  "greek_lower b1 b2 =
     (if b1 = CHR 0xCE then
        map_of
          [(CHR 0x91, [CHR 0xCE, CHR 0xB1]), (CHR 0x92, [CHR 0xCE, CHR 0xB2]),
           (CHR 0x93, [CHR 0xCE, CHR 0xB3]), (CHR 0x94, [CHR 0xCE, CHR 0xB4]),
           (CHR 0x95, [CHR 0xCE, CHR 0xB5]), (CHR 0x96, [CHR 0xCE, CHR 0xB6]),
           (CHR 0x97, [CHR 0xCE, CHR 0xB7]), (CHR 0x98, [CHR 0xCE, CHR 0xB8]),
           (CHR 0x99, [CHR 0xCE, CHR 0xB9]), (CHR 0x9A, [CHR 0xCE, CHR 0xBA]),
           (CHR 0x9B, [CHR 0xCE, CHR 0xBB]), (CHR 0x9C, [CHR 0xCE, CHR 0xBC]),
           (CHR 0x9D, [CHR 0xCE, CHR 0xBD]), (CHR 0x9E, [CHR 0xCE, CHR 0xBE]),
           (CHR 0x9F, [CHR 0xCE, CHR 0xBF]), (CHR 0xA0, [CHR 0xCF, CHR 0x80]),
           (CHR 0xA1, [CHR 0xCF, CHR 0x81]), (CHR 0xA4, [CHR 0xCF, CHR 0x84]),
           (CHR 0xA5, [CHR 0xCF, CHR 0x85]), (CHR 0xA6, [CHR 0xCF, CHR 0x86]),
           (CHR 0xA7, [CHR 0xCF, CHR 0x87]), (CHR 0xA8, [CHR 0xCF, CHR 0x88]),
           (CHR 0xA9, [CHR 0xCF, CHR 0x89])]
          b2
      else None)"

definition greek_letter :: "char \<Rightarrow> char \<Rightarrow> bool" where
  "greek_letter b1 b2 =
     ((b1 = CHR 0xCE \<and> b2 \<in> set
         [CHR 0x91, CHR 0x92, CHR 0x93, CHR 0x94, CHR 0x95, CHR 0x96, CHR 0x97, CHR 0x98,
          CHR 0x99, CHR 0x9A, CHR 0x9B, CHR 0x9C, CHR 0x9D, CHR 0x9E, CHR 0x9F, CHR 0xA0,
          CHR 0xA1, CHR 0xA3, CHR 0xA4, CHR 0xA5, CHR 0xA6, CHR 0xA7, CHR 0xA8, CHR 0xA9,
          CHR 0xB1, CHR 0xB2, CHR 0xB3, CHR 0xB4, CHR 0xB5, CHR 0xB6, CHR 0xB7, CHR 0xB8,
          CHR 0xB9, CHR 0xBA, CHR 0xBB, CHR 0xBC, CHR 0xBD, CHR 0xBE, CHR 0xBF])
      \<or> (b1 = CHR 0xCF \<and> b2 \<in> set
         [CHR 0x80, CHR 0x81, CHR 0x82, CHR 0x83, CHR 0x84, CHR 0x85, CHR 0x86, CHR 0x87,
          CHR 0x88, CHR 0x89]))"

definition letter_next :: "string \<Rightarrow> bool" where
  "letter_next bs =
     (case bs of
        [] \<Rightarrow> False
      | [b] \<Rightarrow> ascii_letter b
      | b1 # b2 # _ \<Rightarrow> ascii_letter b1 \<or> greek_letter b1 b2)"

fun lower_from :: "bool \<Rightarrow> string \<Rightarrow> string" where
  "lower_from prev [] = []"
| "lower_from prev [b] = [ascii_lower b]"
| "lower_from prev (b1 # b2 # bs) =
     (if b1 = CHR 0xCE \<and> b2 = CHR 0xA3 then
        (if prev \<and> \<not> letter_next bs then [CHR 0xCF, CHR 0x82] else [CHR 0xCF, CHR 0x83])
        @ lower_from True bs
      else
        (case greek_lower b1 b2 of
           Some l \<Rightarrow> l @ lower_from True bs
         | None \<Rightarrow>
             if greek_letter b1 b2 then b1 # b2 # lower_from True bs
             else ascii_lower b1 # lower_from (ascii_letter b1) (b2 # bs)))"

definition toLowerCase :: "string \<Rightarrow> string" where
  "toLowerCase s = lower_from False s"

text \<open>
  \<^verbatim>\<open>param.split(",")\<close>: the segments between commas, empty segments included; the
  empty string splits into the one empty segment, as in JavaScript. The second case
  of the inner \<open>case\<close> is never taken (the result of a split is never empty).
\<close>

fun split_comma :: "string \<Rightarrow> string list" where
  "split_comma [] = [[]]"
| "split_comma (c # cs) =
     (if c = CHR '','' then [] # split_comma cs
      else (case split_comma cs of
              w # ws \<Rightarrow> (c # w) # ws
            | [] \<Rightarrow> [[c]]))"

text \<open>\<^verbatim>\<open>topics.join(",")\<close>.\<close>

fun join_comma :: "string list \<Rightarrow> string" where
  "join_comma [] = []"
| "join_comma [w] = w"
| "join_comma (w # v # ws) = w @ CHR '','' # join_comma (v # ws)"

text \<open>
  \<^verbatim>\<open>URLSearchParams\<close>: the decoded key/value pairs of a query string, in order.
  \<^verbatim>\<open>get\<close> returns the first value of a key, \<^verbatim>\<open>delete\<close> removes every pair of
  a key, \<^verbatim>\<open>set\<close> overwrites the first pair of a key and removes the others, or
  appends the pair when the key is absent. Parsing and serialising the query string
  (\<^verbatim>\<open>new URLSearchParams(window.location.search)\<close>, \<^verbatim>\<open>params.toString()\<close>) are
  not modelled: a location is its list of decoded pairs.
\<close>

type_synonym query = "(string \<times> string) list"

definition usp_get :: "string \<Rightarrow> query \<Rightarrow> string option" where
  "usp_get k q = map_of q k"

definition usp_delete :: "string \<Rightarrow> query \<Rightarrow> query" where
  "usp_delete k q = filter (\<lambda>p. fst p \<noteq> k) q"

fun usp_set :: "string \<Rightarrow> string \<Rightarrow> query \<Rightarrow> query" where
  "usp_set k v [] = [(k, v)]"
| "usp_set k v (p # ps) =
     (if fst p = k then (k, v) # usp_delete k ps else p # usp_set k v ps)"

text \<open>
  What a component asks of the router: \<^verbatim>\<open>router.replace(url)\<close>, recorded with the
  query it carries (the path is \<^verbatim>\<open>window.location.pathname\<close>, unchanged), and
  \<^verbatim>\<open>router.push(url)\<close>, recorded with its path.
\<close>

datatype action = Replace query | Push string

section \<open>ArticlesList: derived values\<close>

text \<open>
  \<^verbatim>\<open>allTopics\<close> (lines 29-35): the topics of all articles are added to a
  \<^verbatim>\<open>Set\<close> (which keeps the first occurrence of each, in insertion order), and the
  set's elements are sorted with the default comparison of \<^verbatim>\<open>Array.prototype.sort\<close>,
  the lexicographic order of the strings' code units (which is the order of their
  UTF-8 bytes for strings of characters below U+10000).
\<close>

definition set_add :: "string list \<Rightarrow> string \<Rightarrow> string list" where
  "set_add acc topic = (if topic \<in> set acc then acc else acc @ [topic])"

definition allTopics :: "article list \<Rightarrow> string list" where
  "allTopics articles =
     sort (foldl (\<lambda>acc article. foldl set_add acc (topics article)) [] articles)"

text \<open>
  \<^verbatim>\<open>filteredArticles\<close> (lines 37-42):
  \<^verbatim>\<open>if (selectedTopics.length === 0) return articles;
  return articles.filter((article) =>
    selectedTopics.every((topic) => article.topics.includes(topic)));\<close>
\<close>

definition filteredArticles :: "article list \<Rightarrow> string list \<Rightarrow> article list" where
  "filteredArticles articles selectedTopics =
     (if length selectedTopics = 0 then articles
      else filter (\<lambda>article. list_all (\<lambda>topic. topic \<in> set (topics article)) selectedTopics)
             articles)"

text \<open>
  Lines 45-47:
  \<^verbatim>\<open>displayedTopics = allTopics.slice(0, visibleTopicsCount);
  extraTopics = selectedTopics.filter((t) => !displayedTopics.includes(t));
  topicsToShow = [...displayedTopics, ...extraTopics];\<close>
  One toggle button is rendered for each entry of \<^verbatim>\<open>topicsToShow\<close> (lines 155-164).
\<close>

definition displayedTopics :: "string list \<Rightarrow> nat \<Rightarrow> string list" where
  "displayedTopics all_topics visibleTopicsCount = take visibleTopicsCount all_topics"

definition extraTopics :: "string list \<Rightarrow> nat \<Rightarrow> string list \<Rightarrow> string list" where
  "extraTopics all_topics visibleTopicsCount selectedTopics =
     filter (\<lambda>t. \<not> t \<in> set (displayedTopics all_topics visibleTopicsCount)) selectedTopics"

definition topicsToShow :: "string list \<Rightarrow> nat \<Rightarrow> string list \<Rightarrow> string list" where
  "topicsToShow all_topics visibleTopicsCount selectedTopics =
     displayedTopics all_topics visibleTopicsCount
       @ extraTopics all_topics visibleTopicsCount selectedTopics"

section \<open>HomePageContent: the search filter\<close>

text \<open>
  The function wrapped by \<^verbatim>\<open>debounce\<close> in \<^verbatim>\<open>handleSearch\<close> (lines 58-71) passes
  this list to \<^verbatim>\<open>setFilteredArticles\<close>:
  \<^verbatim>\<open>if (!term) { setFilteredArticles(articles); return; }
  setFilteredArticles(articles.filter((article) =>
    article.title.toLowerCase().includes(term.toLowerCase()) ||
    (article.description &&
      article.description.toLowerCase().includes(term.toLowerCase()))));\<close>
  \<^verbatim>\<open>!term\<close> holds for the empty string; \<^verbatim>\<open>article.description && ...\<close> is falsy
  for a missing and for an empty description. \<open>lower\<close> is
  \<^verbatim>\<open>String.prototype.toLowerCase\<close>.
\<close>

definition searchFilter ::
  "(string \<Rightarrow> string) \<Rightarrow> article list \<Rightarrow> string \<Rightarrow> article list" where
  "searchFilter lower articles term =
     (if term = [] then articles
      else filter
             (\<lambda>article.
                includes_str (lower (title article)) (lower term) \<or>
                (case description article of
                   None \<Rightarrow> False
                 | Some d \<Rightarrow> d \<noteq> [] \<and> includes_str (lower d) (lower term)))
             articles)"


section \<open>ArticlesList: state, event handlers and effects\<close>

text \<open>
  The \<^verbatim>\<open>useState\<close> variables of \<^verbatim>\<open>ArticlesList\<close> (lines 23-27), with their
  initial values. \<^verbatim>\<open>selectedTopics\<close> holds an array, and React compares the
  dependencies of effects and memos by identity (\<^verbatim>\<open>Object.is\<close>), not by contents:
  \<open>selectedTopicsRef\<close> is the identity of the array now held, numbered in the
  order in which the arrays were stored. Every call of \<^verbatim>\<open>setSelectedTopics\<close> in the
  component stores a newly built array (\<^verbatim>\<open>split\<close>, \<^verbatim>\<open>filter\<close>, a spread, or the
  literal \<^verbatim>\<open>[]\<close>), hence one with the next number.
\<close>

record tstate =
  selectedTopics :: "string list"
  selectedTopicsRef :: nat
  visibleCount :: nat
  visibleTopicsCount :: nat
  showOnlyMessage :: bool
  initialized :: bool

definition initial_tstate :: tstate where
  "initial_tstate =
     \<lparr>selectedTopics = [], selectedTopicsRef = 0, visibleCount = 10,
      visibleTopicsCount = 10, showOnlyMessage = False, initialized = False\<rparr>"

definition setSelectedTopics :: "string list \<Rightarrow> tstate \<Rightarrow> tstate" where
  "setSelectedTopics ts s =
     s\<lparr>selectedTopics := ts, selectedTopicsRef := Suc (selectedTopicsRef s)\<rparr>"

text \<open>
  \<^verbatim>\<open>updateURL\<close> (lines 67-76) builds a \<^verbatim>\<open>URLSearchParams\<close> value that it never
  uses, and calls \<^verbatim>\<open>setSelectedTopics(topics)\<close>.
\<close>

definition updateURL :: "string list \<Rightarrow> tstate \<Rightarrow> tstate" where
  "updateURL ts s = setSelectedTopics ts s"

text \<open>
  \<^verbatim>\<open>toggleTopic\<close> (lines 78-87):
  \<^verbatim>\<open>setVisibleCount(10);
  setSelectedTopics((prev) => {
    const next = prev.includes(topic) ? prev.filter((t) => t !== topic) : [...prev, topic];
    updateURL(next);
    return next;
  });\<close>
  The updater returns \<^verbatim>\<open>next\<close>, and the call of \<^verbatim>\<open>updateURL\<close> inside it stores the
  same array \<^verbatim>\<open>next\<close> once more: the state after the handler is \<^verbatim>\<open>next\<close>.
\<close>

definition toggleTopic :: "string \<Rightarrow> tstate \<Rightarrow> tstate" where
  "toggleTopic topic s =
     (let prev = selectedTopics s;
          next = (if topic \<in> set prev then filter (\<lambda>t. t \<noteq> topic) prev else prev @ [topic])
      in updateURL next (s\<lparr>visibleCount := 10\<rparr>))"

text \<open>\<^verbatim>\<open>clearSelection\<close> (lines 89-92): \<^verbatim>\<open>setVisibleCount(10); updateURL([]);\<close>\<close>

definition clearSelection :: "tstate \<Rightarrow> tstate" where
  "clearSelection s = updateURL [] (s\<lparr>visibleCount := 10\<rparr>)"

text \<open>
  The other handlers: \<^verbatim>\<open>setVisibleTopicsCount((prev) => prev + 10)\<close> (line 176),
  \<^verbatim>\<open>setVisibleCount((prev) => prev + 10)\<close> (line 190) and
  \<^verbatim>\<open>setShowOnlyMessage((prev) => !prev)\<close> (line 134).
\<close>

definition moreTopics :: "tstate \<Rightarrow> tstate" where
  "moreTopics s = s\<lparr>visibleTopicsCount := visibleTopicsCount s + 10\<rparr>"

definition loadMore :: "tstate \<Rightarrow> tstate" where
  "loadMore s = s\<lparr>visibleCount := visibleCount s + 10\<rparr>"

definition toggleMessage :: "tstate \<Rightarrow> tstate" where
  "toggleMessage s = s\<lparr>showOnlyMessage := \<not> showOnlyMessage s\<rparr>"

text \<open>
  A mounted \<^verbatim>\<open>ArticlesList\<close>: its state, what React remembers of the dependencies
  of the effects at their last run (\<open>None\<close> before the first run), the location
  (\<^verbatim>\<open>window.location.search\<close>) and the calls made on the router so far, oldest first.
  The \<^verbatim>\<open>articles\<close> prop and the router are taken to be the same objects at every
  render of one mounted component.

  The identity of the memoised \<^verbatim>\<open>filteredArticles\<close> array (a dependency of the
  third effect): the memo is recomputed exactly when \<^verbatim>\<open>selectedTopics\<close> is a new
  array, and it returns the \<^verbatim>\<open>articles\<close> prop itself for an empty selection and a
  newly built array otherwise.
\<close>

datatype aref = ArticlesProp | FilterResult nat

definition filteredRef :: "tstate \<Rightarrow> aref" where
  "filteredRef s =
     (if length (selectedTopics s) = 0 then ArticlesProp else FilterResult (selectedTopicsRef s))"

record alist =
  state :: tstate
  syncDeps :: "(nat \<times> bool) option"
  notFoundDeps :: "(aref \<times> nat \<times> bool) option"
  location :: query
  log :: "action list"

text \<open>
  The effects. Each is given \<open>s\<close>, the state of the render whose effects are run:
  an effect reads the state variables its render closed over, and a state set by an
  effect is seen by the next render only.

  First effect (lines 94-102), dependencies \<^verbatim>\<open>[searchParams, initialized]\<close>:
  \<^verbatim>\<open>if (!initialized) {
    const param = searchParams.get("topics");
    if (param) { setSelectedTopics(param.split(",")); }
    setInitialized(true);
  }\<close>
  \<^verbatim>\<open>initialized\<close> is false at the first render only, where every effect runs, and the
  body does nothing once it is true; so running the body after every render is the
  same as running it when a dependency changed. \<^verbatim>\<open>if (param)\<close> fails for a missing
  and for an empty parameter.
\<close>

definition initEffect :: "tstate \<Rightarrow> alist \<Rightarrow> alist" where
  "initEffect s c =
     (if \<not> initialized s then
        (let c1 = (case usp_get ''topics'' (location c) of
                     None \<Rightarrow> c
                   | Some param \<Rightarrow>
                       if param \<noteq> [] then c\<lparr>state := setSelectedTopics (split_comma param) (state c)\<rparr>
                       else c)
         in c1\<lparr>state := (state c1)\<lparr>initialized := True\<rparr>\<rparr>)
      else c)"

text \<open>
  Second effect (lines 104-118), dependencies \<^verbatim>\<open>[selectedTopics, initialized, router]\<close>:
  \<^verbatim>\<open>if (initialized) {
    const params = new URLSearchParams(window.location.search);
    if (selectedTopics.length) { params.set("topics", selectedTopics.join(",")); }
    else { params.delete("topics"); }
    ...
    router.replace(url);
  }\<close>
  The replacement is recorded in the log and taken to have reached the location
  before the next read of it.
\<close>

definition router_replace :: "query \<Rightarrow> alist \<Rightarrow> alist" where
  "router_replace q c = c\<lparr>log := log c @ [Replace q], location := q\<rparr>"

definition syncEffect :: "tstate \<Rightarrow> alist \<Rightarrow> alist" where
  "syncEffect s c =
     (let deps = (selectedTopicsRef s, initialized s) in
      if syncDeps c = Some deps then c
      else
        (let c1 = c\<lparr>syncDeps := Some deps\<rparr> in
         if initialized s then
           router_replace
             (if length (selectedTopics s) \<noteq> 0
              then usp_set ''topics'' (join_comma (selectedTopics s)) (location c1)
              else usp_delete ''topics'' (location c1))
             c1
         else c1))"

text \<open>
  Third effect (lines 120-124), dependencies
  \<^verbatim>\<open>[filteredArticles, articles.length, initialized, router]\<close>:
  \<^verbatim>\<open>if (initialized && articles.length > 0 && filteredArticles.length === 0) {
    router.push("/404");
  }\<close>
\<close>

definition notFoundEffect :: "article list \<Rightarrow> tstate \<Rightarrow> alist \<Rightarrow> alist" where
  "notFoundEffect articles s c =
     (let deps = (filteredRef s, length articles, initialized s) in
      if notFoundDeps c = Some deps then c
      else
        (let c1 = c\<lparr>notFoundDeps := Some deps\<rparr> in
         if initialized s \<and> length articles > 0
            \<and> length (filteredArticles articles (selectedTopics s)) = 0
         then c1\<lparr>log := log c1 @ [Push ''/404'']\<rparr>
         else c1))"

text \<open>
  One render and the effects after it, in the order of their declaration; each effect
  runs when it has not run yet or one of its dependencies is not the object of its
  last run.
\<close>

definition commit :: "article list \<Rightarrow> alist \<Rightarrow> alist" where
  "commit articles c =
     (let s = state c in notFoundEffect articles s (syncEffect s (initEffect s c)))"

lemma syncEffect_state: "state (syncEffect s c) = state c"
  by (simp add: syncEffect_def router_replace_def Let_def)

lemma notFoundEffect_state: "state (notFoundEffect articles s c) = state c"
  by (simp add: notFoundEffect_def Let_def)

lemma commit_state: "state (commit articles c) = state (initEffect (state c) c)"
  by (simp add: commit_def Let_def notFoundEffect_state syncEffect_state)

lemma initEffect_initialized: "initialized s \<Longrightarrow> initEffect s c = c"
  by (simp add: initEffect_def)

lemma initEffect_sets_initialized:
  "\<not> initialized s \<Longrightarrow> initialized (state (initEffect s c))"
  by (simp add: initEffect_def Let_def split: option.splits)

text \<open>
  React renders again, and runs the effects again, as long as the effects of the last
  render have set a state variable to a new value. Only the first effect sets state,
  and only while \<^verbatim>\<open>initialized\<close> is false, so this ends after at most two renders.
\<close>

function flush :: "article list \<Rightarrow> alist \<Rightarrow> alist" where
  "flush articles c =
     (let c1 = commit articles c in if state c1 = state c then c1 else flush articles c1)"
  by pat_completeness auto
termination
proof (relation "measure (\<lambda>(articles, c). if initialized (state c) then 0 else (1 :: nat))")
  show "wf (measure (\<lambda>(articles, c). if initialized (state c) then 0 else (1 :: nat)))"
    by simp
next
  fix articles :: "article list" and c c1 :: alist
  assume c1: "c1 = commit articles c" and changed: "state c1 \<noteq> state c"
  have "\<not> initialized (state c)"
    using c1 changed by (auto simp: commit_state initEffect_initialized)
  moreover from this have "initialized (state c1)"
    using c1 by (simp add: commit_state initEffect_sets_initialized)
  ultimately show "((articles, c1), (articles, c))
      \<in> measure (\<lambda>(articles, c). if initialized (state c) then 0 else (1 :: nat))"
    by simp
qed

declare flush.simps [simp del]

text \<open>
  Mounting the component at a location: the first render, with the initial state, and
  the renders that follow from it.
\<close>

definition initial_alist :: "query \<Rightarrow> alist" where
  "initial_alist loc =
     \<lparr>state = initial_tstate, syncDeps = None, notFoundDeps = None, location = loc, log = []\<rparr>"

definition mount :: "article list \<Rightarrow> query \<Rightarrow> alist" where
  "mount articles loc = flush articles (initial_alist loc)"

text \<open>
  The events of a mounted component: a click on a topic button, on "All Topics" or
  "Clear Selection", on "More Topics", on "Load More Articles", on the chevron of the
  filter description, and a render caused from outside with the same props (by the
  parent, or by the router after the location changed). An event runs its handler;
  then the component renders and its effects run.
\<close>

datatype tevent = ToggleTopic string | ClearSelection | MoreTopics | LoadMore | ToggleMessage
  | Rerender

fun handler :: "tevent \<Rightarrow> tstate \<Rightarrow> tstate" where
  "handler (ToggleTopic topic) s = toggleTopic topic s"
| "handler ClearSelection s = clearSelection s"
| "handler MoreTopics s = moreTopics s"
| "handler LoadMore s = loadMore s"
| "handler ToggleMessage s = toggleMessage s"
| "handler Rerender s = s"

definition dispatch :: "article list \<Rightarrow> alist \<Rightarrow> tevent \<Rightarrow> alist" where
  "dispatch articles c ev = flush articles (c\<lparr>state := handler ev (state c)\<rparr>)"

definition run :: "article list \<Rightarrow> query \<Rightarrow> tevent list \<Rightarrow> alist" where
  "run articles loc evs = foldl (dispatch articles) (mount articles loc) evs"

text \<open>The selection that the first effect reads from the location.\<close>

definition initialTopics :: "query \<Rightarrow> string list" where
  "initialTopics loc =
     (case usp_get ''topics'' loc of
        None \<Rightarrow> []
      | Some param \<Rightarrow> if param \<noteq> [] then split_comma param else [])"

text \<open>The query that the second effect writes after mounting at \<open>loc\<close>.\<close>

definition mount_query :: "query \<Rightarrow> query" where
  "mount_query loc =
     (if length (initialTopics loc) \<noteq> 0
      then usp_set ''topics'' (join_comma (initialTopics loc)) loc
      else usp_delete ''topics'' loc)"

text \<open>
  A component is settled when a further render would run no effect: the dependencies
  remembered for the effects are those of the current state.
\<close>

definition settled :: "article list \<Rightarrow> alist \<Rightarrow> bool" where
  "settled articles c =
     (initialized (state c) \<and>
      syncDeps c = Some (selectedTopicsRef (state c), True) \<and>
      notFoundDeps c = Some (filteredRef (state c), length articles, True))"

text \<open>
  The condition of the third effect, on the state of a render, and the router calls
  made by the effects of one render.
\<close>

definition no_results :: "article list \<Rightarrow> tstate \<Rightarrow> bool" where
  "no_results articles s =
     (initialized s \<and> length articles > 0
      \<and> length (filteredArticles articles (selectedTopics s)) = 0)"

definition emitted :: "article list \<Rightarrow> alist \<Rightarrow> action list" where
  "emitted articles c = drop (length (log c)) (log (commit articles c))"


section \<open>HomePageContent: state, events and effects\<close>

text \<open>
  The state of a mounted \<^verbatim>\<open>HomePageContent\<close>: \<^verbatim>\<open>searchTerm\<close> and
  \<^verbatim>\<open>filteredArticles\<close> (lines 37-38; the latter is passed to \<^verbatim>\<open>ArticlesList\<close>
  at line 228), the variable \<^verbatim>\<open>timer\<close> of the closure made by \<^verbatim>\<open>debounce\<close>
  (lines 49-55), what React remembers of the effects, the location and the router
  calls so far. \<^verbatim>\<open>isFocused\<close> and \<^verbatim>\<open>visible\<close> only style the page and are left
  out. A pending timeout is the time left in milliseconds and the term it was
  scheduled with. \<^verbatim>\<open>useCallback(debounce(...), [articles])\<close> keeps the debounced
  function of the first render while the \<^verbatim>\<open>articles\<close> prop is the same object,
  which it is taken to be; so there is one \<^verbatim>\<open>timer\<close>.
\<close>

record home =
  searchTerm :: string
  hp_filteredArticles :: "article list"
  timer :: "(nat \<times> string) option"
  mounted :: bool
  searchDeps :: "string option"
  urlDeps :: "string option"
  hp_location :: query
  hp_log :: "action list"

definition initial_home :: "article list \<Rightarrow> query \<Rightarrow> home" where
  "initial_home articles loc =
     \<lparr>searchTerm = [], hp_filteredArticles = articles, timer = None, mounted = False,
      searchDeps = None, urlDeps = None, hp_location = loc, hp_log = []\<rparr>"

text \<open>
  First effect (lines 43-47), dependencies \<^verbatim>\<open>[]\<close>, so it runs after the first render
  only:
  \<^verbatim>\<open>const params = new URLSearchParams(window.location.search);
  const initialSearch = params.get("search") ?? "";
  setSearchTerm(initialSearch);\<close>
\<close>

definition mountEffect :: "home \<Rightarrow> home" where
  "mountEffect h =
     (if mounted h then h
      else h\<lparr>searchTerm := (case usp_get ''search'' (hp_location h) of
                               None \<Rightarrow> []
                             | Some v \<Rightarrow> v),
             mounted := True\<rparr>)"

text \<open>
  Second effect (lines 75-77), dependencies \<^verbatim>\<open>[searchTerm, handleSearch]\<close>:
  \<^verbatim>\<open>handleSearch(searchTerm)\<close>, where the debounced function does
  \<^verbatim>\<open>clearTimeout(timer); timer = setTimeout(() => func(...args), delay);\<close> with
  \<^verbatim>\<open>delay\<close> 300. \<open>term\<close> is the \<^verbatim>\<open>searchTerm\<close> of the render whose effects run; it
  is a string, compared by value.
\<close>

definition searchEffect :: "string \<Rightarrow> home \<Rightarrow> home" where
  "searchEffect term h =
     (if searchDeps h = Some term then h
      else h\<lparr>searchDeps := Some term, timer := Some (300, term)\<rparr>)"

text \<open>
  Third effect (lines 79-93), dependencies \<^verbatim>\<open>[searchTerm, router]\<close>:
  \<^verbatim>\<open>const params = new URLSearchParams(window.location.search);
  if (searchTerm) { params.set("search", searchTerm); } else { params.delete("search"); }
  ...
  router.replace(..., { scroll: false });\<close>
\<close>

definition urlEffect :: "string \<Rightarrow> home \<Rightarrow> home" where
  "urlEffect term h =
     (if urlDeps h = Some term then h
      else
        (let q = (if term \<noteq> [] then usp_set ''search'' term (hp_location h)
                  else usp_delete ''search'' (hp_location h))
         in h\<lparr>urlDeps := Some term, hp_log := hp_log h @ [Replace q], hp_location := q\<rparr>))"

definition hp_commit :: "home \<Rightarrow> home" where
  "hp_commit h = (let term = searchTerm h in urlEffect term (searchEffect term (mountEffect h)))"

lemma hp_commit_mounted: "mounted (hp_commit h)"
  by (simp add: hp_commit_def mountEffect_def searchEffect_def urlEffect_def Let_def)

lemma hp_commit_searchTerm: "mounted h \<Longrightarrow> searchTerm (hp_commit h) = searchTerm h"
  by (simp add: hp_commit_def mountEffect_def searchEffect_def urlEffect_def Let_def)

text \<open>
  Render again while the effects of the last render have changed the state; only the
  first effect sets state, after the first render.
\<close>

function hp_flush :: "home \<Rightarrow> home" where
  "hp_flush h = (let h1 = hp_commit h in if searchTerm h1 = searchTerm h then h1 else hp_flush h1)"
  by pat_completeness auto
termination
proof (relation "measure (\<lambda>h. if mounted h then 0 else (1 :: nat))")
  show "wf (measure (\<lambda>h. if mounted h then 0 else (1 :: nat)))"
    by simp
next
  fix h h1 :: home
  assume h1: "h1 = hp_commit h" and changed: "searchTerm h1 \<noteq> searchTerm h"
  have "\<not> mounted h"
    using h1 changed hp_commit_searchTerm by auto
  then show "(h1, h) \<in> measure (\<lambda>h. if mounted h then 0 else (1 :: nat))"
    using h1 by (simp add: hp_commit_mounted)
qed

declare hp_flush.simps [simp del]

definition hp_mount :: "article list \<Rightarrow> query \<Rightarrow> home" where
  "hp_mount articles loc = hp_flush (initial_home articles loc)"

text \<open>
  The events: typing in the input (\<^verbatim>\<open>onChange\<close>, line 170:
  \<^verbatim>\<open>setSearchTerm(e.target.value)\<close>), a click on the clear button (line 188:
  \<^verbatim>\<open>setSearchTerm("")\<close>), and the passing of \<open>d\<close> milliseconds with no other event.
  When the time left of the pending timeout has passed, its callback runs
  \<^verbatim>\<open>func(term)\<close>, which stores the filtered list (lines 58-71). \<open>lower\<close> is
  \<^verbatim>\<open>String.prototype.toLowerCase\<close>, as in \<open>searchFilter\<close>.
\<close>

datatype hevent = Input string | ClearClick | Elapse nat

definition elapse ::
  "(string \<Rightarrow> string) \<Rightarrow> article list \<Rightarrow> nat \<Rightarrow> home \<Rightarrow> home" where
  "elapse lower articles d h =
     (case timer h of
        None \<Rightarrow> h
      | Some (r, term) \<Rightarrow>
          if r \<le> d
          then h\<lparr>hp_filteredArticles := searchFilter lower articles term, timer := None\<rparr>
          else h\<lparr>timer := Some (r - d, term)\<rparr>)"

fun hp_handler ::
  "(string \<Rightarrow> string) \<Rightarrow> article list \<Rightarrow> hevent \<Rightarrow> home \<Rightarrow> home" where
  "hp_handler lower articles (Input v) h = h\<lparr>searchTerm := v\<rparr>"
| "hp_handler lower articles ClearClick h = h\<lparr>searchTerm := []\<rparr>"
| "hp_handler lower articles (Elapse d) h = elapse lower articles d h"

definition hp_dispatch ::
  "(string \<Rightarrow> string) \<Rightarrow> article list \<Rightarrow> home \<Rightarrow> hevent \<Rightarrow> home" where
  "hp_dispatch lower articles h ev = hp_flush (hp_handler lower articles ev h)"

definition hp_run ::
  "(string \<Rightarrow> string) \<Rightarrow> article list \<Rightarrow> query \<Rightarrow> hevent list \<Rightarrow> home" where
  "hp_run lower articles loc evs =
     foldl (hp_dispatch lower articles) (hp_mount articles loc) evs"

text \<open>
  \<open>fires h ev\<close>: the event lets the pending timeout of \<open>h\<close> run its callback.
  \<open>no_fire lower articles h evs\<close>: no callback runs while \<open>evs\<close> are handled
  from \<open>h\<close>.
\<close>

definition fires :: "home \<Rightarrow> hevent \<Rightarrow> bool" where
  "fires h ev =
     (case ev of
        Elapse d \<Rightarrow> (case timer h of None \<Rightarrow> False | Some (r, term) \<Rightarrow> r \<le> d)
      | _ \<Rightarrow> False)"

fun no_fire ::
  "(string \<Rightarrow> string) \<Rightarrow> article list \<Rightarrow> home \<Rightarrow> hevent list \<Rightarrow> bool" where
  "no_fire lower articles h [] = True"
| "no_fire lower articles h (ev # evs) =
     (\<not> fires h ev \<and> no_fire lower articles (hp_dispatch lower articles h ev) evs)"

definition hp_settled :: "home \<Rightarrow> bool" where
  "hp_settled h =
     (mounted h \<and> searchDeps h = Some (searchTerm h) \<and> urlDeps h = Some (searchTerm h))"

section \<open>Facts about the library functions\<close>






lemma split_comma_nonempty [simp]: "split_comma s \<noteq> []"
  by (cases s) (simp_all split: list.splits)

lemma join_comma_Cons: "join_comma ((c # w) # ws) = c # join_comma (w # ws)"
  by (cases ws) simp_all

lemma join_split_comma: "join_comma (split_comma s) = s"
proof (induction s)
  case Nil
  show ?case by simp
next
  case (Cons c cs)
  show ?case
  proof (cases "c = CHR '',''")
    case True
    with Cons show ?thesis
      by (cases "split_comma cs") simp_all
  next
    case False
    with Cons show ?thesis
      by (cases "split_comma cs") (simp_all add: join_comma_Cons)
  qed
qed

lemma usp_get_set: "usp_get k (usp_set k v q) = Some v"
  by (induction q) (simp_all add: usp_get_def)

lemma filteredArticles_filter:
  "filteredArticles articles S = filter (\<lambda>a. \<forall>t \<in> set S. t \<in> set (topics a)) articles"
  by (cases S) (simp_all add: filteredArticles_def list_all_iff)

section \<open>Facts about the ArticlesList runtime\<close>

lemma flush_initialized: "initialized (state c) \<Longrightarrow> flush articles c = commit articles c"
  by (subst flush.simps) (simp add: Let_def commit_state initEffect_initialized)

lemma commit_makes_initialized: "initialized (state (commit articles c))"
  by (cases "initialized (state c)")
     (simp_all add: commit_state initEffect_initialized initEffect_sets_initialized)

lemma flush_uninitialized:
  "\<not> initialized (state c) \<Longrightarrow> flush articles c = commit articles (commit articles c)"
proof -
  assume n: "\<not> initialized (state c)"
  have "state (commit articles c) \<noteq> state c"
    using n commit_makes_initialized [of articles c] by auto
  then have "flush articles c = flush articles (commit articles c)"
    by (subst flush.simps) (simp add: Let_def)
  then show ?thesis
    by (simp add: flush_initialized commit_makes_initialized)
qed

lemma commit_settled: "settled articles c \<Longrightarrow> commit articles c = c"
  by (simp add: settled_def commit_def initEffect_def syncEffect_def notFoundEffect_def Let_def)

lemma commit_settles: "initialized (state c) \<Longrightarrow> settled articles (commit articles c)"
  by (simp add: settled_def commit_def initEffect_def syncEffect_def notFoundEffect_def Let_def
      router_replace_def)

lemma flush_settled: "settled articles (flush articles c)"
  by (cases "initialized (state c)")
     (simp_all add: flush_initialized flush_uninitialized commit_settles commit_makes_initialized)

lemma first_commit:
  "commit articles (initial_alist loc) =
     \<lparr>state = initial_tstate
        \<lparr>selectedTopics := initialTopics loc,
         selectedTopicsRef := (if initialTopics loc = [] then 0 else 1),
         initialized := True\<rparr>,
      syncDeps = Some (0, False),
      notFoundDeps = Some (ArticlesProp, length articles, False),
      location = loc, log = []\<rparr>"
  by (simp add: commit_def initial_alist_def initial_tstate_def initEffect_def syncEffect_def
      notFoundEffect_def initialTopics_def setSelectedTopics_def filteredRef_def Let_def
      split: option.splits)

lemma mount_eq:
  "mount articles loc =
     \<lparr>state = initial_tstate
        \<lparr>selectedTopics := initialTopics loc,
         selectedTopicsRef := (if initialTopics loc = [] then 0 else 1),
         initialized := True\<rparr>,
      syncDeps = Some (if initialTopics loc = [] then 0 else 1, True),
      notFoundDeps =
        Some (if initialTopics loc = [] then ArticlesProp else FilterResult 1,
              length articles, True),
      location = mount_query loc,
      log = Replace (mount_query loc) #
        (if length articles > 0 \<and> length (filteredArticles articles (initialTopics loc)) = 0
         then [Push ''/404''] else [])\<rparr>"
proof -
  have "mount articles loc = commit articles (commit articles (initial_alist loc))"
    by (simp add: mount_def flush_uninitialized initial_alist_def initial_tstate_def)
  then show ?thesis
    unfolding first_commit
    by (simp add: commit_def initial_tstate_def initEffect_def syncEffect_def
      notFoundEffect_def filteredRef_def router_replace_def mount_query_def Let_def)
qed

lemma commit_log:
  "log (commit articles c) =
     log c
     @ (if syncDeps c \<noteq> Some (selectedTopicsRef (state c), initialized (state c))
           \<and> initialized (state c)
        then [Replace (if length (selectedTopics (state c)) \<noteq> 0
                       then usp_set ''topics'' (join_comma (selectedTopics (state c))) (location c)
                       else usp_delete ''topics'' (location c))]
        else [])
     @ (if notFoundDeps c \<noteq> Some (filteredRef (state c), length articles, initialized (state c))
           \<and> initialized (state c) \<and> length articles > 0
           \<and> length (filteredArticles articles (selectedTopics (state c))) = 0
        then [Push ''/404''] else [])"
  by (simp add: commit_def initEffect_def syncEffect_def notFoundEffect_def router_replace_def
      Let_def split: option.splits)

lemma handler_initialized [simp]: "initialized (handler ev s) = initialized s"
  by (cases ev)
     (simp_all add: toggleTopic_def clearSelection_def updateURL_def setSelectedTopics_def
        moreTopics_def loadMore_def toggleMessage_def Let_def)

lemma commit_state_initialized: "initialized (state c) \<Longrightarrow> state (commit articles c) = state c"
  by (simp add: commit_state initEffect_initialized)

lemma dispatch_commit:
  "initialized (state c) \<Longrightarrow>
     dispatch articles c ev = commit articles (c\<lparr>state := handler ev (state c)\<rparr>)"
  by (simp add: dispatch_def flush_initialized)

lemma dispatch_state:
  "initialized (state c) \<Longrightarrow> state (dispatch articles c ev) = handler ev (state c)"
  by (simp add: dispatch_commit commit_state_initialized)

lemma run_snoc: "run articles loc (evs @ [ev]) = dispatch articles (run articles loc evs) ev"
  by (simp add: run_def)

lemma run_settled: "settled articles (run articles loc evs)"
  by (cases evs rule: rev_cases) (simp_all add: run_def mount_def dispatch_def flush_settled)

lemma run_initialized: "initialized (state (run articles loc evs))"
  using run_settled [of articles loc evs] by (simp add: settled_def)

text \<open>After mounting, the state is moved by the handlers alone.\<close>

lemma run_state:
  "state (run articles loc evs) = foldl (\<lambda>s ev. handler ev s) (state (mount articles loc)) evs"
proof (induction evs rule: rev_induct)
  case Nil
  show ?case by (simp add: run_def)
next
  case (snoc ev evs)
  have "state (run articles loc (evs @ [ev])) = handler ev (state (run articles loc evs))"
    by (simp add: run_snoc dispatch_state run_initialized)
  with snoc show ?case
    by simp
qed

lemma mount_selectedTopics: "selectedTopics (state (mount articles loc)) = initialTopics loc"
  by (simp add: mount_eq)

lemma handler_distinct:
  "distinct (selectedTopics s) \<Longrightarrow> distinct (selectedTopics (handler ev s))"
  by (cases ev)
     (simp_all add: toggleTopic_def clearSelection_def updateURL_def setSelectedTopics_def
        moreTopics_def loadMore_def toggleMessage_def Let_def)

lemma handler_same_ref:
  "selectedTopicsRef (handler ev s) = selectedTopicsRef s \<Longrightarrow>
     selectedTopics (handler ev s) = selectedTopics s"
  by (cases ev)
     (simp_all add: toggleTopic_def clearSelection_def updateURL_def setSelectedTopics_def
        moreTopics_def loadMore_def toggleMessage_def Let_def)

lemma no_results_selection: "no_results articles s \<Longrightarrow> selectedTopics s \<noteq> []"
  by (auto simp: no_results_def filteredArticles_def)

text \<open>
  In a reached state where the condition of the third effect holds, the navigation has
  been requested: the effect ran when the condition became true, since one of its
  dependencies changed then.
\<close>

lemma run_push_complete:
  "no_results articles (state (run articles loc evs))
     \<Longrightarrow> Push ''/404'' \<in> set (log (run articles loc evs))"
proof (induction evs rule: rev_induct)
  case Nil
  then show ?case
    by (simp add: run_def mount_eq no_results_def)
next
  case (snoc ev evs)
  let ?c = "run articles loc evs"
  let ?s = "handler ev (state ?c)"
  let ?c1 = "?c\<lparr>state := ?s\<rparr>"
  have init: "initialized (state ?c)" by (rule run_initialized)
  have run: "run articles loc (evs @ [ev]) = commit articles ?c1"
    by (simp add: run_snoc dispatch_commit init)
  have st: "state (commit articles ?c1) = ?s"
    by (simp add: commit_state_initialized init)
  have nr: "no_results articles ?s"
    using snoc.prems run st by simp
  show ?case
  proof (cases "notFoundDeps ?c = Some (filteredRef ?s, length articles, initialized ?s)")
    case False
    with nr show ?thesis
      unfolding run by (simp add: commit_log no_results_def)
  next
    case True
    have "notFoundDeps ?c = Some (filteredRef (state ?c), length articles, True)"
      using run_settled [of articles loc evs] by (simp add: settled_def)
    with True have "filteredRef ?s = filteredRef (state ?c)"
      by simp
    moreover have "selectedTopics ?s \<noteq> []"
      using nr by (rule no_results_selection)
    ultimately have "selectedTopicsRef ?s = selectedTopicsRef (state ?c)"
      by (simp add: filteredRef_def split: if_splits)
    then have "selectedTopics ?s = selectedTopics (state ?c)"
      by (rule handler_same_ref)
    with nr init have "no_results articles (state ?c)"
      by (simp add: no_results_def)
    then have "Push ''/404'' \<in> set (log ?c)"
      by (rule snoc.IH)
    then show ?thesis
      unfolding run by (simp add: commit_log)
  qed
qed

text \<open>
  A navigation request in the log was made at a reached state where the condition of
  the third effect holds.
\<close>

lemma run_push_sound:
  "Push ''/404'' \<in> set (log (run articles loc evs))
     \<Longrightarrow> \<exists>evs'. prefix evs' evs \<and> no_results articles (state (run articles loc evs'))"
proof (induction evs rule: rev_induct)
  case Nil
  then have "no_results articles (state (run articles loc []))"
    by (simp add: run_def mount_eq no_results_def split: if_splits)
  then show ?case by blast
next
  case (snoc ev evs)
  let ?c = "run articles loc evs"
  let ?s = "handler ev (state ?c)"
  let ?c1 = "?c\<lparr>state := ?s\<rparr>"
  have init: "initialized (state ?c)" by (rule run_initialized)
  have run: "run articles loc (evs @ [ev]) = commit articles ?c1"
    by (simp add: run_snoc dispatch_commit init)
  have st: "state (run articles loc (evs @ [ev])) = ?s"
    by (simp add: run commit_state_initialized init)
  from snoc.prems consider "Push ''/404'' \<in> set (log ?c)" | "no_results articles ?s"
    unfolding run by (auto simp: commit_log no_results_def split: if_splits)
  then show ?case
  proof cases
    case 1
    then obtain evs' where "prefix evs' evs" "no_results articles (state (run articles loc evs'))"
      using snoc.IH by blast
    then show ?thesis
      by (meson prefix_order.trans prefixI)
  next
    case 2
    then have "no_results articles (state (run articles loc (evs @ [ev])))"
      by (simp add: st)
    then show ?thesis by blast
  qed
qed

lemma dispatch_log_mono:
  "initialized (state c) \<Longrightarrow> set (log c) \<subseteq> set (log (dispatch articles c ev))"
  by (simp add: dispatch_commit commit_log)

lemma run_log_mono: "set (log (run articles loc evs)) \<subseteq> set (log (run articles loc (evs @ evs2)))"
proof (induction evs2 rule: rev_induct)
  case Nil
  show ?case by simp
next
  case (snoc ev evs2)
  have "set (log (run articles loc (evs @ evs2)))
          \<subseteq> set (log (run articles loc ((evs @ evs2) @ [ev])))"
    unfolding run_snoc by (rule dispatch_log_mono) (rule run_initialized)
  with snoc show ?case by auto
qed

lemma rerender_settled: "settled articles c \<Longrightarrow> dispatch articles c Rerender = c"
  by (simp add: dispatch_def settled_def flush_initialized commit_settled)

lemma run_rerenders: "run articles loc (replicate n Rerender) = mount articles loc"
proof (induction n)
  case 0
  show ?case by (simp add: run_def)
next
  case (Suc n)
  have "run articles loc (replicate (Suc n) Rerender)
        = dispatch articles (run articles loc (replicate n Rerender)) Rerender"
    by (simp add: run_snoc [symmetric] replicate_append_same)
  then show ?case
    using run_settled [of articles loc "replicate n Rerender"] Suc
    by (simp add: rerender_settled)
qed

section \<open>Facts about the HomePageContent runtime\<close>

lemma hp_flush_mounted: "mounted h \<Longrightarrow> hp_flush h = hp_commit h"
  by (subst hp_flush.simps) (simp add: Let_def hp_commit_searchTerm)

lemma hp_flush_cases:
  "hp_flush h = hp_commit h \<or> hp_flush h = hp_commit (hp_commit h)"
proof (cases "searchTerm (hp_commit h) = searchTerm h")
  case True
  then show ?thesis by (subst hp_flush.simps) (simp add: Let_def)
next
  case False
  then have "hp_flush h = hp_flush (hp_commit h)"
    by (subst hp_flush.simps) (simp add: Let_def)
  then show ?thesis
    by (simp add: hp_flush_mounted hp_commit_mounted)
qed

lemma hp_commit_filtered: "hp_filteredArticles (hp_commit h) = hp_filteredArticles h"
  by (simp add: hp_commit_def mountEffect_def searchEffect_def urlEffect_def Let_def)

lemma hp_flush_filtered: "hp_filteredArticles (hp_flush h) = hp_filteredArticles h"
  using hp_flush_cases [of h] by (auto simp: hp_commit_filtered)

lemma hp_commit_settles: "mounted h \<Longrightarrow> hp_settled (hp_commit h)"
  by (simp add: hp_settled_def hp_commit_def mountEffect_def searchEffect_def urlEffect_def Let_def)

lemma hp_flush_settled: "hp_settled (hp_flush h)"
proof (cases "searchTerm (hp_commit h) = searchTerm h")
  case True
  then have "hp_flush h = hp_commit h"
    by (subst hp_flush.simps) (simp add: Let_def)
  moreover have "hp_settled (hp_commit h)"
    using True
    by (auto simp add: hp_settled_def hp_commit_def mountEffect_def searchEffect_def urlEffect_def Let_def)
  ultimately show ?thesis by simp
next
  case False
  then have "hp_flush h = hp_flush (hp_commit h)"
    by (subst hp_flush.simps) (simp add: Let_def)
  then show ?thesis
    by (simp add: hp_flush_mounted hp_commit_mounted hp_commit_settles)
qed

lemma hp_run_snoc:
  "hp_run lower articles loc (evs @ [ev])
     = hp_dispatch lower articles (hp_run lower articles loc evs) ev"
  by (simp add: hp_run_def)

lemma hp_run_settled: "hp_settled (hp_run lower articles loc evs)"
  by (cases evs rule: rev_cases)
     (simp_all add: hp_run_def hp_mount_def hp_dispatch_def hp_flush_settled)

lemma hp_mount_eq:
  "hp_mount articles loc =
     (let term = (case usp_get ''search'' loc of None \<Rightarrow> [] | Some v \<Rightarrow> v) in
      \<lparr>searchTerm = term, hp_filteredArticles = articles, timer = Some (300, term),
       mounted = True, searchDeps = Some term, urlDeps = Some term,
       hp_location = (if term \<noteq> [] then usp_set ''search'' term (usp_delete ''search'' loc)
                      else usp_delete ''search'' loc),
       hp_log = Replace (usp_delete ''search'' loc) #
          (if term \<noteq> [] then [Replace (usp_set ''search'' term (usp_delete ''search'' loc))]
           else [])\<rparr>)"
proof (cases "(case usp_get ''search'' loc of None \<Rightarrow> [] | Some v \<Rightarrow> v) = []")
  case True
  then have "searchTerm (hp_commit (initial_home articles loc)) = searchTerm (initial_home articles loc)"
    by (simp add: hp_commit_def initial_home_def mountEffect_def searchEffect_def urlEffect_def Let_def)
  then have "hp_mount articles loc = hp_commit (initial_home articles loc)"
    unfolding hp_mount_def by (subst hp_flush.simps) (simp add: Let_def)
  with True show ?thesis
    by (simp add: hp_commit_def initial_home_def mountEffect_def searchEffect_def urlEffect_def Let_def)
next
  case False
  then have "searchTerm (hp_commit (initial_home articles loc)) \<noteq> searchTerm (initial_home articles loc)"
    by (simp add: hp_commit_def initial_home_def mountEffect_def searchEffect_def urlEffect_def Let_def)
  then have "hp_mount articles loc = hp_flush (hp_commit (initial_home articles loc))"
    unfolding hp_mount_def by (subst hp_flush.simps) (simp add: Let_def)
  then have "hp_mount articles loc = hp_commit (hp_commit (initial_home articles loc))"
    by (simp add: hp_flush_mounted hp_commit_mounted)
  with False show ?thesis
    by (simp add: hp_commit_def initial_home_def mountEffect_def searchEffect_def urlEffect_def Let_def)
qed

lemma hp_dispatch_filtered:
  "\<not> fires h ev \<Longrightarrow>
     hp_filteredArticles (hp_dispatch lower articles h ev) = hp_filteredArticles h"
  by (cases ev)
     (auto simp: hp_dispatch_def hp_flush_filtered fires_def elapse_def split: option.splits)

lemma no_fire_filtered:
  "no_fire lower articles h evs \<Longrightarrow>
     hp_filteredArticles (foldl (hp_dispatch lower articles) h evs) = hp_filteredArticles h"
  by (induction evs arbitrary: h) (simp_all add: hp_dispatch_filtered)

lemmas hp_eval = hp_run_def hp_dispatch_def hp_mount_eq hp_flush_mounted hp_commit_def
  mountEffect_def searchEffect_def urlEffect_def elapse_def fires_def usp_get_def usp_delete_def
  searchFilter_def toLowerCase_def ascii_lower_def ascii_letter_def greek_lower_def
  greek_letter_def letter_next_def Let_def

section \<open>The topic filter\<close>

text \<open>
  Claim C1. For every article collection and every sequence \<open>S\<close> of selected topics,
  the topic filter returns exactly the subsequence of the input articles whose topics
  contain every topic of \<open>S\<close> (a conjunction over the topics); for the empty \<open>S\<close> it
  returns the input collection unchanged, in its order.
\<close>

theorem topic_filter_is_conjunctive_subsequence:
  "filteredArticles articles S = filter (\<lambda>a. \<forall>t \<in> set S. t \<in> set (topics a)) articles
   \<and> filteredArticles articles [] = articles"
  by (cases S) (simp_all add: filteredArticles_def list_all_iff)

theorem topic_filter_is_conjunctive_subsequence_witness:
  "filteredArticles
     [\<lparr>slug = ''a'', title = ''A'', description = None, topics = [''AI'']\<rparr>,
      \<lparr>slug = ''b'', title = ''B'', description = None, topics = [''AI'', ''Databases'']\<rparr>]
     [''AI'', ''Databases'']
   = [\<lparr>slug = ''b'', title = ''B'', description = None, topics = [''AI'', ''Databases'']\<rparr>]"
  using topic_filter_is_conjunctive_subsequence
    [of "[\<lparr>slug = ''a'', title = ''A'', description = None, topics = [''AI'']\<rparr>,
          \<lparr>slug = ''b'', title = ''B'', description = None,
             topics = [''AI'', ''Databases'']\<rparr>]"
        "[''AI'', ''Databases'']"]
  by simp

section \<open>The search filter\<close>




section \<open>The navigation to the not-found page\<close>

text \<open>
  Claim C3. The navigation request to the "not found" destination is signalled if and
  only if initialization has completed, the source article collection is non-empty and
  the topic-filtered result is empty; it never fires before the initial state is
  loaded, never on an empty source collection, and in the scenario of a non-empty
  collection mounted with a selection that matches no article it is requested exactly
  once.

  The four parts of the theorem: the effects of one render request the navigation if
  and only if the third effect runs (a dependency changed) and its condition holds;
  over a whole run, the navigation has been requested if and only if the condition
  held at the mount or after one of the events; the effects of the first render, where
  \<^verbatim>\<open>initialized\<close> is still false, request nothing; and when the condition holds
  after mounting, the log holds exactly one request, however often the component is
  rendered again.
\<close>

theorem not_found_navigation_iff_no_results:
  "(Push ''/404'' \<in> set (emitted articles c) \<longleftrightarrow>
      notFoundDeps c \<noteq> Some (filteredRef (state c), length articles, initialized (state c))
      \<and> initialized (state c) \<and> length articles > 0
      \<and> length (filteredArticles articles (selectedTopics (state c))) = 0)
   \<and> (Push ''/404'' \<in> set (log (run articles loc evs)) \<longleftrightarrow>
        (\<exists>evs'. prefix evs' evs \<and> no_results articles (state (run articles loc evs'))))
   \<and> Push ''/404'' \<notin> set (log (commit articles (initial_alist loc)))
   \<and> (no_results articles (state (mount articles loc)) \<longrightarrow>
        count_list (log (run articles loc (replicate n Rerender))) (Push ''/404'') = 1)"
proof -
  have a: "Push ''/404'' \<in> set (emitted articles c) \<longleftrightarrow>
      notFoundDeps c \<noteq> Some (filteredRef (state c), length articles, initialized (state c))
      \<and> initialized (state c) \<and> length articles > 0
      \<and> length (filteredArticles articles (selectedTopics (state c))) = 0"
    by (simp add: emitted_def commit_log)
  have b: "Push ''/404'' \<in> set (log (run articles loc evs)) \<longleftrightarrow>
        (\<exists>evs'. prefix evs' evs \<and> no_results articles (state (run articles loc evs')))"
  proof
    assume "Push ''/404'' \<in> set (log (run articles loc evs))"
    then show "\<exists>evs'. prefix evs' evs \<and> no_results articles (state (run articles loc evs'))"
      by (rule run_push_sound)
  next
    assume "\<exists>evs'. prefix evs' evs \<and> no_results articles (state (run articles loc evs'))"
    then obtain evs' evs2 where "evs = evs' @ evs2"
      and "no_results articles (state (run articles loc evs'))"
      by (auto simp: prefix_def)
    then show "Push ''/404'' \<in> set (log (run articles loc evs))"
      using run_push_complete [of articles loc evs'] run_log_mono [of articles loc evs' evs2]
      by auto
  qed
  have c: "Push ''/404'' \<notin> set (log (commit articles (initial_alist loc)))"
    by (simp add: first_commit)
  have d: "count_list (log (run articles loc (replicate n Rerender))) (Push ''/404'') = 1"
    if "no_results articles (state (mount articles loc))"
    using that unfolding run_rerenders by (simp add: mount_eq no_results_def)
  from a b c d show ?thesis by blast
qed

theorem not_found_navigation_iff_no_results_witness:
  "no_results
     [\<lparr>slug = ''a'', title = ''A'', description = None, topics = [''AI'']\<rparr>]
     (state (mount [\<lparr>slug = ''a'', title = ''A'', description = None, topics = [''AI'']\<rparr>]
        [(''topics'', ''Nonexistent'')]))
   \<and> count_list
       (log (run [\<lparr>slug = ''a'', title = ''A'', description = None, topics = [''AI'']\<rparr>]
          [(''topics'', ''Nonexistent'')] (replicate 3 Rerender)))
       (Push ''/404'') = 1
   \<and> Push ''/404'' \<in> set
       (log (run [\<lparr>slug = ''a'', title = ''A'', description = None, topics = [''AI'']\<rparr>]
          [(''topics'', ''Nonexistent'')] []))"
proof -
  let ?as = "[\<lparr>slug = ''a'', title = ''A'', description = None, topics = [''AI'']\<rparr>]"
  let ?loc = "[(''topics'', ''Nonexistent'')]"
  have nr: "no_results ?as (state (mount ?as ?loc))"
    by (simp add: no_results_def mount_eq initialTopics_def usp_get_def filteredArticles_def)
  then have "\<exists>evs'. prefix evs' [] \<and> no_results ?as (state (run ?as ?loc evs'))"
    by (simp add: run_def)
  with nr not_found_navigation_iff_no_results [of ?as "initial_alist []" ?loc "[]" 3]
  show ?thesis by blast
qed

section \<open>Toggling a topic twice\<close>

text \<open>
  Claim C4 says that toggling a topic \<open>t\<close> twice in succession returns
  \<^verbatim>\<open>selectedTopics\<close> to its original membership and its original order. The order
  is not restored when \<open>t\<close> was selected before another topic: the first toggle
  removes it and the second appends it at the end. After selecting A and then B,
  toggling A twice leaves B, A.
\<close>

theorem toggle_twice_moves_selected_topic_last:
  "selectedTopics (state (run [] [] [ToggleTopic ''A'', ToggleTopic ''B''])) = [''A'', ''B'']
   \<and> selectedTopics (state (run [] []
        [ToggleTopic ''A'', ToggleTopic ''B'', ToggleTopic ''A'', ToggleTopic ''A'']))
     = [''B'', ''A'']"
  by (simp add: run_state mount_eq initialTopics_def usp_get_def toggleTopic_def
        updateURL_def setSelectedTopics_def Let_def)

text \<open>
  Claim C4, amended. Toggling \<open>t\<close> twice in succession returns \<^verbatim>\<open>selectedTopics\<close>
  to its original membership. When \<open>t\<close> was not selected, the original sequence is
  restored; when \<open>t\<close> was selected, the result is the original sequence with \<open>t\<close>
  removed, followed by \<open>t\<close>.
\<close>

theorem toggle_twice_membership:
  "set (selectedTopics (toggleTopic t (toggleTopic t s))) = set (selectedTopics s)
   \<and> (t \<notin> set (selectedTopics s) \<longrightarrow>
        selectedTopics (toggleTopic t (toggleTopic t s)) = selectedTopics s)
   \<and> (t \<in> set (selectedTopics s) \<longrightarrow>
        selectedTopics (toggleTopic t (toggleTopic t s))
          = filter (\<lambda>u. u \<noteq> t) (selectedTopics s) @ [t])"
  by (auto simp: toggleTopic_def updateURL_def setSelectedTopics_def Let_def filter_id_conv)

theorem toggle_twice_membership_witness:
  "selectedTopics (toggleTopic ''C'' (toggleTopic ''C''
      (initial_tstate\<lparr>selectedTopics := [''A'', ''B'']\<rparr>))) = [''A'', ''B'']
   \<and> selectedTopics (toggleTopic ''A'' (toggleTopic ''A''
      (initial_tstate\<lparr>selectedTopics := [''A'', ''B'']\<rparr>))) = [''B'', ''A'']"
  using toggle_twice_membership [of "''C''" "initial_tstate\<lparr>selectedTopics := [''A'', ''B'']\<rparr>"]
    toggle_twice_membership [of "''A''" "initial_tstate\<lparr>selectedTopics := [''A'', ''B'']\<rparr>"]
  by simp

section \<open>Empty segments of the topics parameter\<close>

text \<open>
  Claim C5 says that the empty segments which leading, trailing or doubled commas of
  the \<^verbatim>\<open>topics\<close> parameter put into the selection are inert: the topic-filtered
  result, and the navigation it triggers, are those of the selection without the
  empty segments. They are not: the empty string is a selected topic like any other,
  and an article matches only if it lists it. For the parameter \<^verbatim>\<open>AI,\<close> and one
  article with the topic AI, the filtered result is empty and the not-found
  navigation is requested; without the empty segment the article is shown and no
  navigation is requested.
\<close>

theorem empty_segment_excludes_articles:
  "filteredArticles [\<lparr>slug = ''a'', title = ''A'', description = None, topics = [''AI'']\<rparr>]
      (initialTopics [(''topics'', ''AI,'')]) = []
   \<and> filteredArticles [\<lparr>slug = ''a'', title = ''A'', description = None, topics = [''AI'']\<rparr>]
      (filter (\<lambda>t. t \<noteq> []) (initialTopics [(''topics'', ''AI,'')]))
      = [\<lparr>slug = ''a'', title = ''A'', description = None, topics = [''AI'']\<rparr>]
   \<and> log (mount [\<lparr>slug = ''a'', title = ''A'', description = None, topics = [''AI'']\<rparr>]
        [(''topics'', ''AI,'')]) = [Replace [(''topics'', ''AI,'')], Push ''/404'']
   \<and> log (mount [\<lparr>slug = ''a'', title = ''A'', description = None, topics = [''AI'']\<rparr>]
        [(''topics'', ''AI'')]) = [Replace [(''topics'', ''AI'')]]"
  by (simp add: mount_eq mount_query_def initialTopics_def usp_get_def usp_delete_def
      filteredArticles_def)

text \<open>
  Claim C5, amended. An empty segment of the \<^verbatim>\<open>topics\<close> parameter is kept as a
  selected topic and is required like every other: for a selection that contains the
  empty string, the topic-filtered result consists of those articles of the result for
  the selection without the empty segments that list the empty string among their
  topics. In particular, when the parameter has an empty segment and no article of a
  non-empty collection has the empty topic, the filtered result after mounting is
  empty and the not-found navigation is requested.
\<close>

theorem empty_segment_is_a_required_topic:
  "([] \<in> set S \<longrightarrow>
      filteredArticles articles S
        = filter (\<lambda>a. [] \<in> set (topics a))
            (filteredArticles articles (filter (\<lambda>t. t \<noteq> []) S)))
   \<and> ([] \<in> set (initialTopics loc) \<and> articles \<noteq> []
        \<and> (\<forall>a \<in> set articles. [] \<notin> set (topics a))
      \<longrightarrow> selectedTopics (state (mount articles loc)) = initialTopics loc
          \<and> filteredArticles articles (initialTopics loc) = []
          \<and> Push ''/404'' \<in> set (log (mount articles loc)))"
proof -
  have a: "filteredArticles articles S
        = filter (\<lambda>a. [] \<in> set (topics a))
            (filteredArticles articles (filter (\<lambda>t. t \<noteq> []) S))"
    if "[] \<in> set S"
    unfolding filteredArticles_filter filter_filter
    using that by (intro filter_cong) auto
  have b: "filteredArticles articles (initialTopics loc) = []"
    if "[] \<in> set (initialTopics loc)" "\<forall>a \<in> set articles. [] \<notin> set (topics a)"
    using that unfolding filteredArticles_filter by (auto simp: filter_empty_conv)
  from a b show ?thesis
    by (auto simp: mount_eq)
qed

theorem empty_segment_is_a_required_topic_witness:
  "[] \<in> set (initialTopics [(''topics'', ''AI,'')])
   \<and> filteredArticles
        [\<lparr>slug = ''a'', title = ''A'', description = None, topics = [''AI'']\<rparr>]
        (initialTopics [(''topics'', ''AI,'')]) = []
   \<and> Push ''/404'' \<in> set (log (mount
        [\<lparr>slug = ''a'', title = ''A'', description = None, topics = [''AI'']\<rparr>]
        [(''topics'', ''AI,'')]))"
proof -
  let ?as = "[\<lparr>slug = ''a'', title = ''A'', description = None, topics = [''AI'']\<rparr>]"
  let ?loc = "[(''topics'', ''AI,'')]"
  have h: "[] \<in> set (initialTopics ?loc)"
    by (simp add: initialTopics_def usp_get_def)
  have ne: "?as \<noteq> []"
    by simp
  have nt: "\<forall>a \<in> set ?as. [] \<notin> set (topics a)"
    by simp
  from empty_segment_is_a_required_topic [of "initialTopics ?loc" ?as ?loc] h ne nt
  show ?thesis by blast
qed

section \<open>Clearing the search input\<close>

text \<open>
  Claim C6 says that the clear action on the search input empties the raw term and the
  debounced term at once, so that the full collection is shown without waiting for the
  300 ms of the debounce. The button calls \<^verbatim>\<open>setSearchTerm("")\<close> and nothing else:
  the filtered collection is changed by the callback of the timeout only. After
  typing "rust", waiting 300 ms and clicking the button, the term is empty, the
  filtered collection is still the one article found, and the timeout is pending.
\<close>

theorem clear_leaves_filtered_collection:
  "searchTerm (hp_run toLowerCase
        [\<lparr>slug = ''r'', title = ''Rust APIs'', description = None, topics = [''Rust'']\<rparr>,
         \<lparr>slug = ''o'', title = ''ONNX Guide'', description = None, topics = [''AI'']\<rparr>]
        [] [Input ''rust'', Elapse 300, ClearClick]) = []
   \<and> hp_filteredArticles (hp_run toLowerCase
        [\<lparr>slug = ''r'', title = ''Rust APIs'', description = None, topics = [''Rust'']\<rparr>,
         \<lparr>slug = ''o'', title = ''ONNX Guide'', description = None, topics = [''AI'']\<rparr>]
        [] [Input ''rust'', Elapse 300, ClearClick])
     = [\<lparr>slug = ''r'', title = ''Rust APIs'', description = None, topics = [''Rust'']\<rparr>]
   \<and> timer (hp_run toLowerCase
        [\<lparr>slug = ''r'', title = ''Rust APIs'', description = None, topics = [''Rust'']\<rparr>,
         \<lparr>slug = ''o'', title = ''ONNX Guide'', description = None, topics = [''AI'']\<rparr>]
        [] [Input ''rust'', Elapse 300, ClearClick]) = Some (300, [])"
  by (simp add: hp_eval)

text \<open>
  Claim C6, amended. The clear action empties the raw term at once and leaves the
  filtered collection as it is. When the term was not empty (the button is rendered
  only then), the action schedules the debounced filter with the empty term: the
  filtered collection is unchanged while less than 300 ms have passed, and it is the
  full collection once 300 ms have passed without another input.
\<close>

theorem clear_is_debounced:
  "searchTerm (hp_dispatch lower articles (hp_run lower articles loc evs) ClearClick) = []
   \<and> hp_filteredArticles (hp_dispatch lower articles (hp_run lower articles loc evs) ClearClick)
       = hp_filteredArticles (hp_run lower articles loc evs)
   \<and> (searchTerm (hp_run lower articles loc evs) \<noteq> [] \<longrightarrow>
        timer (hp_dispatch lower articles (hp_run lower articles loc evs) ClearClick) = Some (300, [])
        \<and> (d < 300 \<longrightarrow>
             hp_filteredArticles
               (hp_dispatch lower articles (hp_dispatch lower articles (hp_run lower articles loc evs) ClearClick)
                  (Elapse d))
             = hp_filteredArticles (hp_run lower articles loc evs))
        \<and> (300 \<le> d \<longrightarrow>
             hp_filteredArticles
               (hp_dispatch lower articles (hp_dispatch lower articles (hp_run lower articles loc evs) ClearClick)
                  (Elapse d))
             = articles))"
proof -
  let ?h = "hp_run lower articles loc evs"
  let ?h1 = "hp_dispatch lower articles ?h ClearClick"
  have s: "hp_settled ?h" by (rule hp_run_settled)
  then have h1: "?h1 = hp_commit (?h\<lparr>searchTerm := []\<rparr>)"
    by (simp add: hp_dispatch_def hp_flush_mounted hp_settled_def)
  have a: "searchTerm ?h1 = []"
    using s unfolding h1
    by (simp add: hp_commit_def mountEffect_def searchEffect_def urlEffect_def hp_settled_def
        Let_def)
  have b: "hp_filteredArticles ?h1 = hp_filteredArticles ?h"
    unfolding h1 by (simp add: hp_commit_filtered)
  have c: "timer ?h1 = Some (300, [])" if "searchTerm ?h \<noteq> []"
    using s that unfolding h1
    by (auto simp add: hp_commit_def mountEffect_def searchEffect_def urlEffect_def
        hp_settled_def Let_def)
  have d1: "hp_filteredArticles (hp_dispatch lower articles ?h1 (Elapse d)) = hp_filteredArticles ?h"
    if "searchTerm ?h \<noteq> []" "d < 300"
    using c [OF that(1)] that(2) b
    by (simp add: hp_dispatch_def hp_flush_filtered elapse_def)
  have d2: "hp_filteredArticles (hp_dispatch lower articles ?h1 (Elapse d)) = articles"
    if "searchTerm ?h \<noteq> []" "300 \<le> d"
    using c [OF that(1)] that(2)
    by (simp add: hp_dispatch_def hp_flush_filtered elapse_def searchFilter_def)
  from a b c d1 d2 show ?thesis by blast
qed

theorem clear_is_debounced_witness:
  "searchTerm (hp_run toLowerCase
        [\<lparr>slug = ''r'', title = ''Rust APIs'', description = None, topics = [''Rust'']\<rparr>,
         \<lparr>slug = ''o'', title = ''ONNX Guide'', description = None, topics = [''AI'']\<rparr>]
        [] [Input ''rust'', Elapse 300]) = ''rust''
   \<and> hp_filteredArticles (hp_run toLowerCase
        [\<lparr>slug = ''r'', title = ''Rust APIs'', description = None, topics = [''Rust'']\<rparr>,
         \<lparr>slug = ''o'', title = ''ONNX Guide'', description = None, topics = [''AI'']\<rparr>]
        [] [Input ''rust'', Elapse 300, ClearClick, Elapse 299])
     = [\<lparr>slug = ''r'', title = ''Rust APIs'', description = None, topics = [''Rust'']\<rparr>]
   \<and> hp_filteredArticles (hp_run toLowerCase
        [\<lparr>slug = ''r'', title = ''Rust APIs'', description = None, topics = [''Rust'']\<rparr>,
         \<lparr>slug = ''o'', title = ''ONNX Guide'', description = None, topics = [''AI'']\<rparr>]
        [] [Input ''rust'', Elapse 300, ClearClick, Elapse 300])
     = [\<lparr>slug = ''r'', title = ''Rust APIs'', description = None, topics = [''Rust'']\<rparr>,
        \<lparr>slug = ''o'', title = ''ONNX Guide'', description = None, topics = [''AI'']\<rparr>]"
proof -
  let ?as = "[\<lparr>slug = ''r'', title = ''Rust APIs'', description = None, topics = [''Rust'']\<rparr>,
      \<lparr>slug = ''o'', title = ''ONNX Guide'', description = None, topics = [''AI'']\<rparr>]"
  let ?evs = "[Input ''rust'', Elapse 300]"
  have t: "searchTerm (hp_run toLowerCase ?as [] ?evs) = ''rust''"
    by (simp add: hp_eval)
  have f: "hp_filteredArticles (hp_run toLowerCase ?as [] ?evs)
      = [\<lparr>slug = ''r'', title = ''Rust APIs'', description = None, topics = [''Rust'']\<rparr>]"
    by (simp add: hp_eval)
  have r1: "hp_run toLowerCase ?as [] [Input ''rust'', Elapse 300, ClearClick, Elapse 299]
      = hp_dispatch toLowerCase ?as (hp_dispatch toLowerCase ?as (hp_run toLowerCase ?as [] ?evs) ClearClick) (Elapse 299)"
    by (simp add: hp_run_def)
  have r2: "hp_run toLowerCase ?as [] [Input ''rust'', Elapse 300, ClearClick, Elapse 300]
      = hp_dispatch toLowerCase ?as (hp_dispatch toLowerCase ?as (hp_run toLowerCase ?as [] ?evs) ClearClick) (Elapse 300)"
    by (simp add: hp_run_def)
  from t f clear_is_debounced [of toLowerCase ?as "[]" ?evs 299]
    clear_is_debounced [of toLowerCase ?as "[]" ?evs 300]
  show ?thesis
    unfolding r1 r2 by simp
qed

section \<open>Location writes at mount\<close>

text \<open>
  Claim C7 says that the read of the \<^verbatim>\<open>search\<close> and \<^verbatim>\<open>topics\<close> parameters at
  mount triggers no write-back to the location on the same tick, and that neither
  component updates the location until its state changes after initialization.
  Mounted at \<^verbatim>\<open>?search=onnx&topics=AI,Databases\<close>, the effects of the first render
  of \<^verbatim>\<open>HomePageContent\<close>, among them the one that reads \<^verbatim>\<open>search\<close>, call
  \<^verbatim>\<open>router.replace\<close> with the \<^verbatim>\<open>search\<close> parameter deleted (its third effect is
  not guarded, and \<^verbatim>\<open>searchTerm\<close> is still empty in that render); and the mount of
  \<^verbatim>\<open>ArticlesList\<close>, with no event at all, ends with a call of
  \<^verbatim>\<open>router.replace\<close>.
\<close>

theorem mount_writes_location:
  "hp_log (hp_commit (initial_home
      [\<lparr>slug = ''a'', title = ''A'', description = None, topics = [''AI'', ''Databases'']\<rparr>]
      [(''search'', ''onnx''), (''topics'', ''AI,Databases'')]))
     = [Replace [(''topics'', ''AI,Databases'')]]
   \<and> log (mount
      [\<lparr>slug = ''a'', title = ''A'', description = None, topics = [''AI'', ''Databases'']\<rparr>]
      [(''search'', ''onnx''), (''topics'', ''AI,Databases'')])
     = [Replace [(''search'', ''onnx''), (''topics'', ''AI,Databases'')]]"
  by (simp add: hp_commit_def initial_home_def mountEffect_def searchEffect_def urlEffect_def
      mount_eq mount_query_def initialTopics_def usp_get_def usp_delete_def filteredArticles_def
      Let_def)

text \<open>
  Claim C7, amended, for the topic filter. The effects of the first render of
  \<^verbatim>\<open>ArticlesList\<close>, which read the \<^verbatim>\<open>topics\<close> parameter, write nothing to the
  location: the write-back is guarded by \<^verbatim>\<open>initialized\<close>. The effects of the next
  render, which the initialization itself causes, call \<^verbatim>\<open>router.replace\<close> once, with
  no later change of state needed; the query they write has the selection just read as
  its \<^verbatim>\<open>topics\<close> parameter, which is the parameter of the location when the
  selection is not empty.
\<close>

theorem topics_write_back_follows_initialization:
  "log (commit articles (initial_alist loc)) = []
   \<and> log (mount articles loc) =
       Replace (mount_query loc) #
         (if length articles > 0 \<and> length (filteredArticles articles (initialTopics loc)) = 0
          then [Push ''/404''] else [])
   \<and> (initialTopics loc \<noteq> [] \<longrightarrow>
        usp_get ''topics'' (mount_query loc) = usp_get ''topics'' loc)"
proof -
  have "usp_get ''topics'' (mount_query loc) = usp_get ''topics'' loc"
    if "initialTopics loc \<noteq> []"
  proof -
    from that obtain param where p: "usp_get ''topics'' loc = Some param" "param \<noteq> []"
      by (auto simp: initialTopics_def split: option.splits if_splits)
    then have "initialTopics loc = split_comma param"
      by (simp add: initialTopics_def)
    then show ?thesis
      using that p by (simp add: mount_query_def usp_get_set join_split_comma)
  qed
  then show ?thesis
    by (simp add: first_commit mount_eq)
qed

theorem topics_write_back_follows_initialization_witness:
  "initialTopics [(''search'', ''onnx''), (''topics'', ''AI,Databases'')] = [''AI'', ''Databases'']
   \<and> log (commit
      [\<lparr>slug = ''a'', title = ''A'', description = None, topics = [''AI'', ''Databases'']\<rparr>]
      (initial_alist [(''search'', ''onnx''), (''topics'', ''AI,Databases'')])) = []
   \<and> log (mount
      [\<lparr>slug = ''a'', title = ''A'', description = None, topics = [''AI'', ''Databases'']\<rparr>]
      [(''search'', ''onnx''), (''topics'', ''AI,Databases'')])
     = [Replace [(''search'', ''onnx''), (''topics'', ''AI,Databases'')]]"
  using topics_write_back_follows_initialization
    [of "[\<lparr>slug = ''a'', title = ''A'', description = None, topics = [''AI'', ''Databases'']\<rparr>]"
        "[(''search'', ''onnx''), (''topics'', ''AI,Databases'')]"]
  by (simp add: mount_query_def initialTopics_def usp_get_def usp_delete_def filteredArticles_def)

section \<open>Duplicates in the selection\<close>

text \<open>
  Claim C8 says that \<^verbatim>\<open>selectedTopics\<close> has no duplicates at any reachable state,
  after toggles and clears and after initialization from the \<^verbatim>\<open>topics\<close> parameter.
  Initialization stores the segments of the parameter as they are, so a parameter
  that repeats a segment gives a selection with a duplicate.
\<close>

theorem repeated_segment_is_selected_twice:
  "\<not> distinct (selectedTopics (state (mount
        [\<lparr>slug = ''a'', title = ''A'', description = None, topics = [''AI'']\<rparr>]
        [(''topics'', ''AI,AI'')])))"
  by (simp add: mount_eq initialTopics_def usp_get_def)

text \<open>
  Claim C8, amended. Every event handler keeps a duplicate-free \<^verbatim>\<open>selectedTopics\<close>
  duplicate-free. Initialization sets \<^verbatim>\<open>selectedTopics\<close> to the segments of the
  \<^verbatim>\<open>topics\<close> parameter (or leaves it empty). So when the segments of the parameter
  are pairwise different, \<^verbatim>\<open>selectedTopics\<close> has no duplicates at any state reached
  from the mount by any sequence of events.
\<close>

theorem selection_stays_duplicate_free:
  "(distinct (selectedTopics s) \<longrightarrow> distinct (selectedTopics (handler ev s)))
   \<and> selectedTopics (state (mount articles loc)) = initialTopics loc
   \<and> (distinct (initialTopics loc) \<longrightarrow> distinct (selectedTopics (state (run articles loc evs))))"
proof -
  have "distinct (selectedTopics (foldl (\<lambda>s ev. handler ev s) s0 evs))"
    if "distinct (selectedTopics s0)" for s0
    using that by (induction evs arbitrary: s0) (simp_all add: handler_distinct)
  then show ?thesis
    by (simp add: handler_distinct run_state mount_selectedTopics)
qed

theorem selection_stays_duplicate_free_witness:
  "distinct (selectedTopics (state (run
        [\<lparr>slug = ''a'', title = ''A'', description = None, topics = [''AI'']\<rparr>]
        [(''topics'', ''AI,Databases'')] [ToggleTopic ''Rust'', ToggleTopic ''AI''])))
   \<and> selectedTopics (state (run
        [\<lparr>slug = ''a'', title = ''A'', description = None, topics = [''AI'']\<rparr>]
        [(''topics'', ''AI,Databases'')] [ToggleTopic ''Rust'', ToggleTopic ''AI'']))
      = [''Databases'', ''Rust'']"
proof -
  have d: "distinct (initialTopics [(''topics'', ''AI,Databases'')])"
    by (simp add: initialTopics_def usp_get_def)
  have "selectedTopics (state (run
        [\<lparr>slug = ''a'', title = ''A'', description = None, topics = [''AI'']\<rparr>]
        [(''topics'', ''AI,Databases'')] [ToggleTopic ''Rust'', ToggleTopic ''AI'']))
      = [''Databases'', ''Rust'']"
    by (simp add: run_state mount_eq initialTopics_def usp_get_def toggleTopic_def
        updateURL_def setSelectedTopics_def Let_def)
  with selection_stays_duplicate_free [of initial_tstate ClearSelection
      "[\<lparr>slug = ''a'', title = ''A'', description = None, topics = [''AI'']\<rparr>]"
      "[(''topics'', ''AI,Databases'')]" "[ToggleTopic ''Rust'', ToggleTopic ''AI'']"] d
  show ?thesis by simp
qed

section \<open>The topic buttons\<close>

text \<open>
  Claim C9. At every state, every selected topic is a member of \<^verbatim>\<open>topicsToShow\<close>,
  which is the first \<^verbatim>\<open>visibleTopicsCount\<close> entries of the sorted topic universe
  followed by the selected topics outside that prefix; so every selected topic has a
  toggle button, also when it lies beyond the revealed prefix.
\<close>

theorem selected_topics_have_buttons:
  "set (selectedTopics s)
     \<subseteq> set (topicsToShow (allTopics articles) (visibleTopicsCount s) (selectedTopics s))
   \<and> topicsToShow (allTopics articles) (visibleTopicsCount s) (selectedTopics s)
     = take (visibleTopicsCount s) (allTopics articles)
       @ filter (\<lambda>t. t \<notin> set (take (visibleTopicsCount s) (allTopics articles)))
           (selectedTopics s)"
  by (auto simp: topicsToShow_def displayedTopics_def extraTopics_def)

theorem selected_topics_have_buttons_witness:
  "set [''Zig'', ''AI'']
     \<subseteq> set (topicsToShow
         (allTopics [\<lparr>slug = ''a'', title = ''A'', description = None, topics = [''Rust'', ''AI'']\<rparr>])
         1 [''Zig'', ''AI''])
   \<and> topicsToShow
         (allTopics [\<lparr>slug = ''a'', title = ''A'', description = None, topics = [''Rust'', ''AI'']\<rparr>])
         1 [''Zig'', ''AI'']
     = [''AI'', ''Zig'']"
proof -
  let ?a = "\<lparr>slug = ''a'', title = ''A'', description = None, topics = [''Rust'', ''AI'']\<rparr>"
  let ?s = "initial_tstate\<lparr>selectedTopics := [''Zig'', ''AI''], visibleTopicsCount := 1\<rparr>"
  have all: "allTopics [?a] = [''AI'', ''Rust'']"
    by code_simp
  show ?thesis
    using selected_topics_have_buttons [of ?s "[?a]"]
    by (simp add: all)
qed

section \<open>The filtered collection before the first timeout\<close>

text \<open>
  Claim C10. After the mount, and until the first debounced filter task fires, the
  search-filtered collection handed to the article list is the full input collection,
  also when the \<^verbatim>\<open>search\<close> parameter of the location is not empty: the mount read
  sets the raw term only (the term is the parameter, the collection is untouched and
  the filter task is pending with 300 ms to go), and the collection stays the full one
  over every sequence of events in which no timeout fires.
\<close>

theorem filtered_collection_is_full_until_first_timeout:
  "hp_filteredArticles (hp_mount articles loc) = articles
   \<and> searchTerm (hp_mount articles loc)
       = (case usp_get ''search'' loc of None \<Rightarrow> [] | Some v \<Rightarrow> v)
   \<and> timer (hp_mount articles loc) = Some (300, searchTerm (hp_mount articles loc))
   \<and> (no_fire lower articles (hp_mount articles loc) evs \<longrightarrow>
        hp_filteredArticles (hp_run lower articles loc evs) = articles)"
proof -
  have "hp_filteredArticles (hp_run lower articles loc evs) = articles"
    if "no_fire lower articles (hp_mount articles loc) evs"
    using no_fire_filtered [OF that] by (simp add: hp_run_def hp_mount_eq Let_def)
  then show ?thesis
    by (simp add: hp_mount_eq Let_def)
qed

theorem filtered_collection_is_full_until_first_timeout_witness:
  "no_fire toLowerCase
     [\<lparr>slug = ''r'', title = ''Rust APIs'', description = None, topics = [''Rust'']\<rparr>,
      \<lparr>slug = ''o'', title = ''ONNX Guide'', description = None, topics = [''AI'']\<rparr>]
     (hp_mount
        [\<lparr>slug = ''r'', title = ''Rust APIs'', description = None, topics = [''Rust'']\<rparr>,
         \<lparr>slug = ''o'', title = ''ONNX Guide'', description = None, topics = [''AI'']\<rparr>]
        [(''search'', ''onnx'')])
     [Elapse 200, Input ''onn'', Elapse 299]
   \<and> searchTerm (hp_mount
        [\<lparr>slug = ''r'', title = ''Rust APIs'', description = None, topics = [''Rust'']\<rparr>,
         \<lparr>slug = ''o'', title = ''ONNX Guide'', description = None, topics = [''AI'']\<rparr>]
        [(''search'', ''onnx'')]) = ''onnx''
   \<and> hp_filteredArticles (hp_run toLowerCase
        [\<lparr>slug = ''r'', title = ''Rust APIs'', description = None, topics = [''Rust'']\<rparr>,
         \<lparr>slug = ''o'', title = ''ONNX Guide'', description = None, topics = [''AI'']\<rparr>]
        [(''search'', ''onnx'')] [Elapse 200, Input ''onn'', Elapse 299])
     = [\<lparr>slug = ''r'', title = ''Rust APIs'', description = None, topics = [''Rust'']\<rparr>,
        \<lparr>slug = ''o'', title = ''ONNX Guide'', description = None, topics = [''AI'']\<rparr>]"
proof -
  let ?as = "[\<lparr>slug = ''r'', title = ''Rust APIs'', description = None, topics = [''Rust'']\<rparr>,
      \<lparr>slug = ''o'', title = ''ONNX Guide'', description = None, topics = [''AI'']\<rparr>]"
  have nf: "no_fire toLowerCase ?as (hp_mount ?as [(''search'', ''onnx'')])
      [Elapse 200, Input ''onn'', Elapse 299]"
    by (simp add: hp_eval)
  with filtered_collection_is_full_until_first_timeout
    [of ?as "[(''search'', ''onnx'')]" toLowerCase "[Elapse 200, Input ''onn'', Elapse 299]"]
  show ?thesis by (simp add: usp_get_def)
qed

end
